theory Spec2Isabelle
  imports Complex_Main "HOL-Library.Multiset" "HOL-Library.AList"
begin

section \<open>Values of the data set\<close>

text \<open>
  The program is one JavaScript file, \<^verbatim>\<open>src/main.js\<close>, with three functions:
  \<^verbatim>\<open>calculateSimpleRevenue\<close>, \<^verbatim>\<open>calculateBonusByProfit\<close> and \<^verbatim>\<open>analyzeSalesData\<close>.

  Conventions of the embedding.
  \<^item> A JavaScript number is \<open>NaN\<close> or an exact rational \<open>Fin r\<close>. The rounding of
    binary floating point, the infinities and the negative zero are not represented.
  \<^item> A property that holds a text is a \<open>string option\<close>, one that holds a number is
    a \<open>jsnum option\<close>; \<open>None\<close> is the absent property (\<^verbatim>\<open>undefined\<close>). A property
    that holds an array is a \<open>list option\<close>, \<open>None\<close> when it is absent.
  \<^item> The plain objects that the program uses as dictionaries (\<^verbatim>\<open>sellerIndex\<close>,
    \<^verbatim>\<open>productIndex\<close>, \<^verbatim>\<open>products_sold\<close>) hold their own keys only (a name inherited
    from \<^verbatim>\<open>Object.prototype\<close>, such as \<^verbatim>\<open>constructor\<close>, is not a key of the model): the
    first two are maps, the third is an association list in insertion order.
  \<^item> \<^verbatim>\<open>throw new Error(...)\<close> is the left summand of the result, one constructor
    for each message; \<^verbatim>\<open>console.warn\<close> appends to a list of warnings that is returned
    with the result.
\<close>

datatype jsnum = NaN | Fin rat

fun num_add :: "jsnum \<Rightarrow> jsnum \<Rightarrow> jsnum" where
  "num_add (Fin a) (Fin b) = Fin (a + b)"
| "num_add _ _ = NaN"

fun num_sub :: "jsnum \<Rightarrow> jsnum \<Rightarrow> jsnum" where
  "num_sub (Fin a) (Fin b) = Fin (a - b)"
| "num_sub _ _ = NaN"

fun num_mul :: "jsnum \<Rightarrow> jsnum \<Rightarrow> jsnum" where
  "num_mul (Fin a) (Fin b) = Fin (a * b)"
| "num_mul _ _ = NaN"

text \<open>The only division of the program is by the literal 100.\<close>

fun num_div_100 :: "jsnum \<Rightarrow> jsnum" where
  "num_div_100 (Fin a) = Fin (a / 100)"
| "num_div_100 NaN = NaN"

text \<open>\<^verbatim>\<open>x > 0\<close> on a number: false on \<open>NaN\<close>.\<close>

fun num_pos :: "jsnum \<Rightarrow> bool" where
  "num_pos (Fin a) = (0 < a)"
| "num_pos NaN = False"



text \<open>
  Truthiness (\<^verbatim>\<open>!x\<close> is its negation): an absent property, the empty text, zero and
  \<open>NaN\<close> are falsy.
\<close>

fun truthy_str :: "string option \<Rightarrow> bool" where
  "truthy_str None = False"
| "truthy_str (Some s) = (s \<noteq> [])"

fun truthy_num :: "jsnum option \<Rightarrow> bool" where
  "truthy_num None = False"
| "truthy_num (Some NaN) = False"
| "truthy_num (Some (Fin a)) = (a \<noteq> 0)"

text \<open>An absent property read as a number is \<open>NaN\<close>; read as a property key or in a
  template literal it is the text \<^verbatim>\<open>undefined\<close>.\<close>

fun to_number :: "jsnum option \<Rightarrow> jsnum" where
  "to_number None = NaN"
| "to_number (Some n) = n"

fun to_text :: "string option \<Rightarrow> string" where
  "to_text None = ''undefined''"
| "to_text (Some s) = s"

text \<open>
  \<^verbatim>\<open>+x.toFixed(2)\<close>: \<^verbatim>\<open>toFixed\<close> takes the sign off, picks the integer \<open>n\<close> with
  \<open>n / 100\<close> nearest to the magnitude (the larger one of two), and prints numbers from
  \<open>10^21\<close> on as they are.
\<close>

fun round2 :: "jsnum \<Rightarrow> jsnum" where
  "round2 NaN = NaN"
| "round2 (Fin a) =
     (if 10 ^ 21 \<le> \<bar>a\<bar> then Fin a
      else Fin (sgn a * of_int \<lfloor>\<bar>a\<bar> * 100 + 1 / 2\<rfloor> / 100))"

section \<open>The data model\<close>

record seller =
  s_id :: "string option"
  s_first_name :: "string option"
  s_last_name :: "string option"

record product =
  p_sku :: "string option"
  p_purchase_price :: "jsnum option"
  p_sale_price :: "jsnum option"

record item =
  i_sku :: "string option"
  i_quantity :: "jsnum option"
  i_sale_price :: "jsnum option"
  i_discount :: "jsnum option"

record purchase_record =
  r_seller_id :: "string option"
  r_total_amount :: "jsnum option"
  r_items :: "item list option"

record dataset =
  sellers :: "seller list option"
  products :: "product list option"
  purchase_records :: "purchase_record list option"

text \<open>The object literal that \<^verbatim>\<open>analyzeSalesData\<close> hands to the revenue strategy.\<close>

record item_view =
  v_sale_price :: "jsnum option"
  v_quantity :: "jsnum option"
  v_discount :: "jsnum option"

record top_product =
  tp_sku :: string
  tp_quantity :: jsnum

text \<open>The accumulator of one seller; \<open>st_top_products\<close> is absent until the ranking.\<close>

record seller_stat =
  st_id :: "string option"
  st_name :: string
  st_revenue :: jsnum
  st_profit :: jsnum
  st_sales_count :: nat
  st_products_sold :: "(string \<times> jsnum) list"
  st_bonus :: jsnum
  st_top_products :: "top_product list option"

record options =
  calculateRevenue :: "(item_view \<Rightarrow> product \<Rightarrow> jsnum) option"
  calculateBonus :: "(int \<Rightarrow> int \<Rightarrow> seller_stat \<Rightarrow> jsnum) option"

record result =
  res_seller_id :: "string option"
  res_name :: string
  res_revenue :: jsnum
  res_profit :: jsnum
  res_sales_count :: nat
  res_top_products :: "top_product list option"
  res_bonus :: jsnum

datatype error =
    InvalidInputData
  | InvalidDataStructure
  | InvalidItems
  | InvalidOptions
  | IncompleteSeller
  | IncompleteProduct
  | TypeError

text \<open>
  The errors, by the place that throws them: \<open>InvalidInputData\<close> at line 56,
  \<open>InvalidDataStructure\<close> at line 79, \<open>InvalidItems\<close> at line 90, \<open>InvalidOptions\<close> at
  line 101, \<open>IncompleteSeller\<close> and \<open>IncompleteProduct\<close> at lines 114 and 122 (caught and
  thrown again at line 127); \<open>TypeError\<close> is the run-time's own error for a method call
  on \<^verbatim>\<open>undefined\<close>. The warnings, by the place that logs them: lines 144, 150, 162
  and 168.
\<close>

datatype warning =
    SkippedRecord purchase_record
  | SellerNotFound string
  | SkippedItem item
  | ProductNotFound string

section \<open>The two strategies of the source\<close>

definition calculateSimpleRevenue :: "item_view \<Rightarrow> product \<Rightarrow> jsnum" where
  "calculateSimpleRevenue purchase product =
     (let discountFactor = num_sub (Fin 1) (num_div_100 (to_number (v_discount purchase)));
          revenue = num_mul (num_mul (to_number (v_sale_price purchase))
                                     (to_number (v_quantity purchase))) discountFactor
      in revenue)"

definition bonusPercentage :: "int \<Rightarrow> int \<Rightarrow> rat" where
  "bonusPercentage index tot =
     (if index = 0 then 15 / 100
      else if index \<le> 2 \<and> index > 0 then 1 / 10
      else if index < tot - 1 then 5 / 100
      else 0)"

definition calculateBonusByProfit :: "int \<Rightarrow> int \<Rightarrow> seller_stat \<Rightarrow> jsnum" where
  "calculateBonusByProfit index tot seller =
     num_mul (st_profit seller) (Fin (bonusPercentage index tot))"

section \<open>analyzeSalesData\<close>

subsection \<open>Validation (lines 47 to 104)\<close>

definition invalid_seller :: "seller \<Rightarrow> bool" where
  "invalid_seller s \<longleftrightarrow>
     \<not> truthy_str (s_id s) \<or> \<not> truthy_str (s_first_name s) \<or> \<not> truthy_str (s_last_name s)"

definition invalid_product :: "product \<Rightarrow> bool" where
  "invalid_product p \<longleftrightarrow>
     \<not> truthy_str (p_sku p) \<or> \<not> truthy_num (p_purchase_price p) \<or> \<not> truthy_num (p_sale_price p)"

definition invalid_purchase :: "purchase_record \<Rightarrow> bool" where
  "invalid_purchase p \<longleftrightarrow>
     \<not> truthy_str (r_seller_id p) \<or>
     (case r_items p of None \<Rightarrow> True | Some its \<Rightarrow> its = [])"

definition invalid_item :: "item \<Rightarrow> bool" where
  "invalid_item it \<longleftrightarrow>
     \<not> truthy_str (i_sku it) \<or> \<not> truthy_num (i_quantity it) \<or> \<not> truthy_num (i_sale_price it)"

definition hasInvalidSellers :: "seller list \<Rightarrow> bool" where
  "hasInvalidSellers ss = list_ex invalid_seller ss"

definition hasInvalidProducts :: "product list \<Rightarrow> bool" where
  "hasInvalidProducts ps = list_ex invalid_product ps"

definition hasInvalidPurchases :: "purchase_record list \<Rightarrow> bool" where
  "hasInvalidPurchases rs = list_ex invalid_purchase rs"

text \<open>\<^verbatim>\<open>p.items.some(...)\<close> raises a TypeError on a record without \<open>items\<close>.\<close>

fun hasInvalidItems :: "purchase_record list \<Rightarrow> error + bool" where
  "hasInvalidItems [] = Inr False"
| "hasInvalidItems (p # ps) =
     (case r_items p of
        None \<Rightarrow> Inl TypeError
      | Some its \<Rightarrow> if list_ex invalid_item its then Inr True else hasInvalidItems ps)"

text \<open>The checks of the data, in the order of the source; the three arrays on success.\<close>

definition validate_data ::
  "dataset option \<Rightarrow> error + (seller list \<times> product list \<times> purchase_record list)" where
  "validate_data data =
     (case data of
        None \<Rightarrow> Inl InvalidInputData
      | Some d \<Rightarrow>
         (case sellers d of
            None \<Rightarrow> Inl InvalidInputData
          | Some ss \<Rightarrow>
             if ss = [] then Inl InvalidInputData
             else (case products d of
                None \<Rightarrow> Inl InvalidInputData
              | Some ps \<Rightarrow>
                 if ps = [] then Inl InvalidInputData
                 else (case purchase_records d of
                    None \<Rightarrow> Inl InvalidInputData
                  | Some rs \<Rightarrow>
                     if rs = [] then Inl InvalidInputData
                     else if hasInvalidSellers ss \<or> hasInvalidProducts ps \<or> hasInvalidPurchases rs
                       then Inl InvalidDataStructure
                     else (case hasInvalidItems rs of
                        Inl e \<Rightarrow> Inl e
                      | Inr True \<Rightarrow> Inl InvalidItems
                      | Inr False \<Rightarrow> Inr (ss, ps, rs))))))"

definition validate_options ::
  "options option \<Rightarrow>
   error + ((item_view \<Rightarrow> product \<Rightarrow> jsnum) \<times> (int \<Rightarrow> int \<Rightarrow> seller_stat \<Rightarrow> jsnum))" where
  "validate_options opts =
     (case opts of
        None \<Rightarrow> Inl InvalidOptions
      | Some given \<Rightarrow>
         (case calculateRevenue given of
            None \<Rightarrow> Inl InvalidOptions
          | Some calcRevenue \<Rightarrow>
             (case calculateBonus given of
                None \<Rightarrow> Inl InvalidOptions
              | Some calcBonus \<Rightarrow> Inr (calcRevenue, calcBonus))))"

subsection \<open>The indexes (lines 107 to 128)\<close>

fun index_sellers :: "seller list \<Rightarrow> (string \<rightharpoonup> seller) \<Rightarrow> error + (string \<rightharpoonup> seller)" where
  "index_sellers [] sellerIndex = Inr sellerIndex"
| "index_sellers (seller # ss) sellerIndex =
     (if \<not> truthy_str (s_id seller) \<or> \<not> truthy_str (s_first_name seller)
         \<or> \<not> truthy_str (s_last_name seller)
      then Inl IncompleteSeller
      else index_sellers ss (sellerIndex(to_text (s_id seller) \<mapsto> seller)))"

fun index_products :: "product list \<Rightarrow> (string \<rightharpoonup> product) \<Rightarrow> error + (string \<rightharpoonup> product)" where
  "index_products [] productIndex = Inr productIndex"
| "index_products (product # ps) productIndex =
     (if \<not> truthy_str (p_sku product) then Inl IncompleteProduct
      else index_products ps (productIndex(to_text (p_sku product) \<mapsto> product)))"

definition build_indexes ::
  "seller list \<Rightarrow> product list \<Rightarrow> error + ((string \<rightharpoonup> seller) \<times> (string \<rightharpoonup> product))" where
  "build_indexes ss ps =
     (case index_sellers ss Map.empty of
        Inl e \<Rightarrow> Inl e
      | Inr sellerIndex \<Rightarrow>
         (case index_products ps Map.empty of
            Inl e \<Rightarrow> Inl e
          | Inr productIndex \<Rightarrow> Inr (sellerIndex, productIndex)))"

subsection \<open>The accumulators (lines 131 to 194)\<close>

definition init_stat :: "seller \<Rightarrow> seller_stat" where
  "init_stat seller =
     \<lparr> st_id = s_id seller,
       st_name = to_text (s_first_name seller) @ '' '' @ to_text (s_last_name seller),
       st_revenue = Fin 0,
       st_profit = Fin 0,
       st_sales_count = 0,
       st_products_sold = [],
       st_bonus = Fin 0,
       st_top_products = None \<rparr>"

text \<open>
  The body of \<^verbatim>\<open>record.items.forEach\<close>: the accumulator of the record's seller and
  the warnings so far go in, and come out updated.
\<close>

definition process_item ::
  "(item_view \<Rightarrow> product \<Rightarrow> jsnum) \<Rightarrow> (string \<rightharpoonup> product) \<Rightarrow>
   seller_stat \<times> warning list \<Rightarrow> item \<Rightarrow> seller_stat \<times> warning list" where
  "process_item calcRevenue productIndex acc it =
     (case acc of (sellerStat, warns) \<Rightarrow>
        if \<not> truthy_str (i_sku it) \<or> \<not> truthy_num (i_quantity it) \<or> \<not> truthy_num (i_sale_price it)
        then (sellerStat, warns @ [SkippedItem it])
        else (case productIndex (to_text (i_sku it)) of
           None \<Rightarrow> (sellerStat, warns @ [ProductNotFound (to_text (i_sku it))])
         | Some product \<Rightarrow>
            (let revenue = calcRevenue
                   \<lparr> v_sale_price = i_sale_price it,
                     v_quantity = i_quantity it,
                     v_discount = (if truthy_num (i_discount it) then i_discount it
                                   else Some (Fin 0)) \<rparr> product;
                 cost = num_mul (to_number (p_purchase_price product)) (to_number (i_quantity it));
                 profit = num_sub revenue cost;
                 sku = to_text (i_sku it);
                 sold = st_products_sold sellerStat;
                 sold1 = (if \<not> truthy_num (map_of sold sku)
                          then AList.update sku (Fin 0) sold else sold);
                 sold2 = AList.update sku
                           (num_add (to_number (map_of sold1 sku)) (to_number (i_quantity it)))
                           sold1
             in (sellerStat\<lparr> st_profit := num_add (st_profit sellerStat) profit,
                              st_products_sold := sold2 \<rparr>, warns))))"

text \<open>\<^verbatim>\<open>find\<close> returns the first accumulator that matches, and the body of the loop
  changes that object in place: the changed accumulator takes its place in the array.
  The first test of the body, \<^verbatim>\<open>!record.seller_id || !record.items\<close>, is taken apart into
  its two operands, which give the same warning.\<close>

fun replace_first :: "('a \<Rightarrow> bool) \<Rightarrow> 'a \<Rightarrow> 'a list \<Rightarrow> 'a list" where
  "replace_first P y [] = []"
| "replace_first P y (x # xs) = (if P x then y # xs else x # replace_first P y xs)"

text \<open>Lines 157 and 158: the record's \<^verbatim>\<open>total_amount\<close> is added to the revenue as it
  is, and the record is counted.\<close>

definition count_record :: "seller_stat \<Rightarrow> purchase_record \<Rightarrow> seller_stat" where
  "count_record sellerStat record =
     sellerStat\<lparr> st_revenue := num_add (st_revenue sellerStat) (to_number (r_total_amount record)),
                 st_sales_count := st_sales_count sellerStat + 1 \<rparr>"

definition process_record ::
  "(item_view \<Rightarrow> product \<Rightarrow> jsnum) \<Rightarrow> (string \<rightharpoonup> seller) \<Rightarrow> (string \<rightharpoonup> product) \<Rightarrow>
   seller_stat list \<times> warning list \<Rightarrow> purchase_record \<Rightarrow> seller_stat list \<times> warning list" where
  "process_record calcRevenue sellerIndex productIndex acc record =
     (case acc of (sellerStats, warns) \<Rightarrow>
        (case r_items record of
           None \<Rightarrow> (sellerStats, warns @ [SkippedRecord record])
         | Some its \<Rightarrow>
            if \<not> truthy_str (r_seller_id record)
            then (sellerStats, warns @ [SkippedRecord record])
            else (case sellerIndex (to_text (r_seller_id record)) of
               None \<Rightarrow> (sellerStats, warns @ [SellerNotFound (to_text (r_seller_id record))])
             | Some seller \<Rightarrow>
                (case find (\<lambda>s. st_id s = s_id seller) sellerStats of
                   None \<Rightarrow> (sellerStats, warns)
                 | Some sellerStat \<Rightarrow>
                    (let done_items = foldl (process_item calcRevenue productIndex)
                                            (count_record sellerStat record, warns) its
                     in (replace_first (\<lambda>s. st_id s = s_id seller) (fst done_items) sellerStats,
                         snd done_items))))))"

definition process_records ::
  "(item_view \<Rightarrow> product \<Rightarrow> jsnum) \<Rightarrow> (string \<rightharpoonup> seller) \<Rightarrow> (string \<rightharpoonup> product) \<Rightarrow>
   seller_stat list \<Rightarrow> purchase_record list \<Rightarrow> seller_stat list \<times> warning list" where
  "process_records calcRevenue sellerIndex productIndex sellerStats rs =
     foldl (process_record calcRevenue sellerIndex productIndex) (sellerStats, []) rs"

subsection \<open>Ranking, bonuses and the result (lines 197 to 219)\<close>

text \<open>
  \<^verbatim>\<open>Array.prototype.sort\<close> with a comparator is a stable sort: \<open>x\<close> goes behind \<open>y\<close>
  only where the comparator of \<open>x\<close> and \<open>y\<close> is positive, and a comparator value
  \<open>NaN\<close> counts as zero. Where the comparator is not a consistent order the language
  leaves the result to the implementation; the insertion sort below is then one of the
  permitted results.
\<close>

fun insert_by :: "('a \<Rightarrow> 'a \<Rightarrow> jsnum) \<Rightarrow> 'a \<Rightarrow> 'a list \<Rightarrow> 'a list" where
  "insert_by cmp x [] = [x]"
| "insert_by cmp x (y # ys) =
     (if num_pos (cmp x y) then y # insert_by cmp x ys else x # y # ys)"

definition sort_by :: "('a \<Rightarrow> 'a \<Rightarrow> jsnum) \<Rightarrow> 'a list \<Rightarrow> 'a list" where
  "sort_by cmp xs = foldr (insert_by cmp) xs []"

definition by_profit :: "seller_stat \<Rightarrow> seller_stat \<Rightarrow> jsnum" where
  "by_profit a b = num_sub (st_profit b) (st_profit a)"

definition by_quantity :: "top_product \<Rightarrow> top_product \<Rightarrow> jsnum" where
  "by_quantity a b = num_sub (tp_quantity b) (tp_quantity a)"

text \<open>\<^verbatim>\<open>Object.entries\<close> lists the keys in the order of their insertion (a key that is
  a canonical array index would come first; skus are not taken to be such keys).\<close>

definition top_products_of :: "seller_stat \<Rightarrow> top_product list" where
  "top_products_of seller =
     take 10 (sort_by by_quantity
       (map (\<lambda>(sku, quantity). \<lparr> tp_sku = sku, tp_quantity = quantity \<rparr>)
            (st_products_sold seller)))"

text \<open>The body of the second \<^verbatim>\<open>forEach\<close>, at position \<open>index\<close> of \<open>tot\<close> (the source's \<^verbatim>\<open>total\<close>).\<close>

definition assign_bonus ::
  "(int \<Rightarrow> int \<Rightarrow> seller_stat \<Rightarrow> jsnum) \<Rightarrow> nat \<Rightarrow> nat \<Rightarrow> seller_stat \<Rightarrow> seller_stat" where
  "assign_bonus calcBonus tot index seller =
     (let with_bonus = seller\<lparr> st_bonus := calcBonus (int index) (int tot) seller \<rparr>
      in with_bonus\<lparr> st_top_products := Some (top_products_of with_bonus) \<rparr>)"

definition assign_bonuses ::
  "(int \<Rightarrow> int \<Rightarrow> seller_stat \<Rightarrow> jsnum) \<Rightarrow> seller_stat list \<Rightarrow> seller_stat list" where
  "assign_bonuses calcBonus sellerStats =
     map (\<lambda>(index, seller). assign_bonus calcBonus (length sellerStats) index seller)
         (enumerate 0 sellerStats)"

definition format_result :: "seller_stat \<Rightarrow> result" where
  "format_result seller =
     \<lparr> res_seller_id = st_id seller,
       res_name = st_name seller,
       res_revenue = round2 (st_revenue seller),
       res_profit = round2 (st_profit seller),
       res_sales_count = st_sales_count seller,
       res_top_products = st_top_products seller,
       res_bonus = round2 (st_bonus seller) \<rparr>"

text \<open>The accumulators after the purchase records, before the sort.\<close>

definition accumulate ::
  "(item_view \<Rightarrow> product \<Rightarrow> jsnum) \<Rightarrow> (string \<rightharpoonup> seller) \<Rightarrow> (string \<rightharpoonup> product) \<Rightarrow>
   seller list \<Rightarrow> purchase_record list \<Rightarrow> seller_stat list \<times> warning list" where
  "accumulate calcRevenue sellerIndex productIndex ss rs =
     process_records calcRevenue sellerIndex productIndex (map init_stat ss) rs"

definition analyzeSalesData ::
  "dataset option \<Rightarrow> options option \<Rightarrow> error + (result list \<times> warning list)" where
  "analyzeSalesData data opts =
     (case validate_data data of
        Inl e \<Rightarrow> Inl e
      | Inr (ss, ps, rs) \<Rightarrow>
         (case validate_options opts of
            Inl e \<Rightarrow> Inl e
          | Inr (calcRevenue, calcBonus) \<Rightarrow>
             (case build_indexes ss ps of
                Inl e \<Rightarrow> Inl e
              | Inr (sellerIndex, productIndex) \<Rightarrow>
                 (let acc = accumulate calcRevenue sellerIndex productIndex ss rs;
                      ranked = sort_by by_profit (fst acc);
                      finished = assign_bonuses calcBonus ranked
                  in Inr (map format_result finished, snd acc)))))"

section \<open>Notions of the statements\<close>

text \<open>A purchase record that the loop does not skip: it has a seller id and items, and
  the index knows the seller.\<close>

definition matched :: "(string \<rightharpoonup> seller) \<Rightarrow> purchase_record \<Rightarrow> bool" where
  "matched sellerIndex record \<longleftrightarrow>
     r_items record \<noteq> None \<and> truthy_str (r_seller_id record) \<and>
     sellerIndex (to_text (r_seller_id record)) \<noteq> None"

text \<open>Warnings that report a skipped purchase record.\<close>

fun is_skipped_record :: "warning \<Rightarrow> bool" where
  "is_skipped_record (SkippedRecord _) = True"
| "is_skipped_record _ = False"

text \<open>An accumulator of seller \<open>k\<close> whose revenue is lost: it has counted a record, and
  its revenue is \<open>NaN\<close>.\<close>

definition lost_revenue :: "string option \<Rightarrow> seller_stat \<Rightarrow> bool" where
  "lost_revenue k st \<longleftrightarrow> st_id st = k \<and> st_revenue st = NaN \<and> 1 \<le> st_sales_count st"


section \<open>Example data\<close>

definition seller_a :: seller where
  "seller_a = \<lparr> s_id = Some ''a'', s_first_name = Some ''Ann'', s_last_name = Some ''Lee'' \<rparr>"

definition seller_b :: seller where
  "seller_b = \<lparr> s_id = Some ''b'', s_first_name = Some ''Bob'', s_last_name = Some ''Ray'' \<rparr>"

definition product_x :: product where
  "product_x =
     \<lparr> p_sku = Some ''x'', p_purchase_price = Some (Fin 50), p_sale_price = Some (Fin 100) \<rparr>"

definition item_x :: item where
  "item_x =
     \<lparr> i_sku = Some ''x'', i_quantity = Some (Fin 2), i_sale_price = Some (Fin 100),
       i_discount = None \<rparr>"

definition record_a :: purchase_record where
  "record_a =
     \<lparr> r_seller_id = Some ''a'', r_total_amount = Some (Fin 200), r_items = Some [item_x] \<rparr>"

definition default_options :: options where
  "default_options =
     \<lparr> calculateRevenue = Some calculateSimpleRevenue,
       calculateBonus = Some calculateBonusByProfit \<rparr>"


definition item_x5 :: item where
  "item_x5 = \<lparr> i_sku = Some ''x'', i_quantity = Some (Fin 5), i_sale_price = Some (Fin 100),
       i_discount = Some (Fin 0) \<rparr>"



definition record_b :: purchase_record where
  "record_b = \<lparr> r_seller_id = Some ''b'', r_total_amount = Some (Fin 300), r_items = Some [item_x5] \<rparr>"

definition record_c :: purchase_record where
  "record_c = \<lparr> r_seller_id = Some ''c'', r_total_amount = Some (Fin 50), r_items = Some [item_x] \<rparr>"



definition record_a_no_total :: purchase_record where
  "record_a_no_total = \<lparr> r_seller_id = Some ''a'', r_total_amount = None, r_items = Some [item_x] \<rparr>"

definition seller_a2 :: seller where
  "seller_a2 = \<lparr> s_id = Some ''a'', s_first_name = Some ''Al'', s_last_name = Some ''Poe'' \<rparr>"

definition product_free :: product where
  "product_free = \<lparr> p_sku = Some ''x'', p_purchase_price = Some (Fin 0), p_sale_price = Some (Fin 100) \<rparr>"

definition product_neg :: product where
  "product_neg = \<lparr> p_sku = Some ''x'', p_purchase_price = Some (Fin (- 50)), p_sale_price = Some (Fin (- 1)) \<rparr>"

definition item_neg :: item where
  "item_neg = \<lparr> i_sku = Some ''x'', i_quantity = Some (Fin (- 2)), i_sale_price = Some (Fin (- 100)),
       i_discount = None \<rparr>"

definition record_a_neg :: purchase_record where
  "record_a_neg = \<lparr> r_seller_id = Some ''a'', r_total_amount = Some (Fin 0), r_items = Some [item_neg] \<rparr>"

definition data_of :: "seller list \<Rightarrow> product list \<Rightarrow> purchase_record list \<Rightarrow> dataset" where
  "data_of ss ps rs = \<lparr> sellers = Some ss, products = Some ps, purchase_records = Some rs \<rparr>"

definition data_2 :: dataset where
  "data_2 = data_of [seller_a, seller_b] [product_x] [record_a, record_c, record_b]"

definition data_neg :: dataset where
  "data_neg = data_of [seller_a] [product_neg] [record_a_neg]"



definition data_no_total :: dataset where
  "data_no_total = data_of [seller_a, seller_b] [product_x] [record_a_no_total, record_a]"




section \<open>Auxiliary facts\<close>

lemma floor_rat_divide_numeral [simp]:
  "\<lfloor>numeral a / numeral b :: rat\<rfloor> = numeral a div numeral b"
  by (metis floor_divide_of_int_eq of_int_numeral)

lemma floor_rat_one_divide_numeral [simp]:
  "\<lfloor>1 / numeral b :: rat\<rfloor> = 1 div numeral b"
  by (metis floor_divide_of_int_eq of_int_1 of_int_numeral)

lemmas run_defs =
  analyzeSalesData_def validate_data_def validate_options_def build_indexes_def
  hasInvalidSellers_def hasInvalidProducts_def hasInvalidPurchases_def invalid_seller_def
  invalid_product_def invalid_purchase_def invalid_item_def accumulate_def process_records_def
  process_record_def count_record_def process_item_def init_stat_def sort_by_def by_profit_def
  by_quantity_def top_products_of_def assign_bonus_def assign_bonuses_def format_result_def
  calculateSimpleRevenue_def calculateBonusByProfit_def bonusPercentage_def Let_def

subsection \<open>Validation and the indexes\<close>

lemma validate_data_InrD:
  assumes "validate_data data = Inr (ss, ps, rs)"
  shows "\<exists>d. data = Some d \<and> sellers d = Some ss \<and> products d = Some ps \<and> purchase_records d = Some rs"
    and "ss \<noteq> []" and "ps \<noteq> []" and "rs \<noteq> []"
    and "\<not> hasInvalidSellers ss" and "\<not> hasInvalidProducts ps" and "\<not> hasInvalidPurchases rs"
    and "hasInvalidItems rs = Inr False"
  using assms
  by (auto simp: validate_data_def split: option.splits if_splits sum.splits bool.splits)

lemma validate_data_InrI:
  assumes "sellers d = Some ss" "products d = Some ps" "purchase_records d = Some rs"
    and "ss \<noteq> []" "ps \<noteq> []" "rs \<noteq> []"
    and "\<not> hasInvalidSellers ss" "\<not> hasInvalidProducts ps" "\<not> hasInvalidPurchases rs"
    and "hasInvalidItems rs = Inr False"
  shows "validate_data (Some d) = Inr (ss, ps, rs)"
  using assms by (simp add: validate_data_def)

lemma hasInvalidItems_False_iff:
  "hasInvalidItems rs = Inr False \<longleftrightarrow>
     (\<forall>r \<in> set rs. \<exists>its. r_items r = Some its \<and> (\<forall>it \<in> set its. \<not> invalid_item it))"
  by (induction rs) (auto simp: list_ex_iff split: option.splits)

lemma index_sellers_total:
  "\<not> hasInvalidSellers ss \<Longrightarrow> \<exists>m. index_sellers ss m0 = Inr m"
  by (induction ss arbitrary: m0) (auto simp: hasInvalidSellers_def invalid_seller_def)

lemma index_products_total:
  "\<not> hasInvalidProducts ps \<Longrightarrow> \<exists>m. index_products ps m0 = Inr m"
  by (induction ps arbitrary: m0) (auto simp: hasInvalidProducts_def invalid_product_def)

lemma build_indexes_total:
  assumes "\<not> hasInvalidSellers ss" "\<not> hasInvalidProducts ps"
  shows "\<exists>sx px. build_indexes ss ps = Inr (sx, px)"
proof -
  obtain sx where "index_sellers ss Map.empty = Inr sx"
    using index_sellers_total [OF assms(1)] by blast
  moreover obtain px where "index_products ps Map.empty = Inr px"
    using index_products_total [OF assms(2)] by blast
  ultimately show ?thesis by (simp add: build_indexes_def)
qed

lemma length_insert_by [simp]: "length (insert_by cmp x ys) = Suc (length ys)"
  by (induction ys) auto

lemma length_sort_by [simp]: "length (sort_by cmp xs) = length xs"
  by (induction xs) (auto simp: sort_by_def)

lemma mset_insert_by [simp]: "mset (insert_by cmp x ys) = add_mset x (mset ys)"
  by (induction ys) auto

lemma mset_sort_by [simp]: "mset (sort_by cmp xs) = mset xs"
  by (induction xs) (auto simp: sort_by_def)

lemma set_sort_by [simp]: "set (sort_by cmp xs) = set xs"
  using mset_sort_by [of cmp xs] by (metis set_mset_mset)

lemma length_assign_bonuses [simp]: "length (assign_bonuses cb xs) = length xs"
  by (simp add: assign_bonuses_def)

lemma nth_assign_bonuses:
  "i < length xs \<Longrightarrow> assign_bonuses cb xs ! i = assign_bonus cb (length xs) i (xs ! i)"
  by (simp add: assign_bonuses_def nth_enumerate_eq)

lemma length_replace_first [simp]: "length (replace_first P y xs) = length xs"
  by (induction xs) auto

lemma process_item_fields:
  "st_id (fst (process_item cr px acc it)) = st_id (fst acc)"
  "st_name (fst (process_item cr px acc it)) = st_name (fst acc)"
  "st_revenue (fst (process_item cr px acc it)) = st_revenue (fst acc)"
  "st_sales_count (fst (process_item cr px acc it)) = st_sales_count (fst acc)"
  "st_bonus (fst (process_item cr px acc it)) = st_bonus (fst acc)"
  "st_top_products (fst (process_item cr px acc it)) = st_top_products (fst acc)"
  by (auto simp: process_item_def Let_def split: prod.splits option.splits)

lemma process_items_fields:
  "st_id (fst (foldl (process_item cr px) acc its)) = st_id (fst acc)"
  "st_name (fst (foldl (process_item cr px) acc its)) = st_name (fst acc)"
  "st_revenue (fst (foldl (process_item cr px) acc its)) = st_revenue (fst acc)"
  "st_sales_count (fst (foldl (process_item cr px) acc its)) = st_sales_count (fst acc)"
  "st_bonus (fst (foldl (process_item cr px) acc its)) = st_bonus (fst acc)"
  "st_top_products (fst (foldl (process_item cr px) acc its)) = st_top_products (fst acc)"
  by (induction its arbitrary: acc) (simp_all add: process_item_fields)

lemma map_replace_first_same:
  "f y = v \<Longrightarrow> (\<And>x. P x \<Longrightarrow> f x = v) \<Longrightarrow> map f (replace_first P y xs) = map f xs"
  by (induction xs) auto

lemma find_Some_P: "find P xs = Some x \<Longrightarrow> P x \<and> x \<in> set xs"
  by (induction xs) (auto split: if_splits)

lemma process_record_ids:
  "map st_id (fst (process_record cr sx px acc r)) = map st_id (fst acc)"
proof (cases acc)
  case (Pair stats warns)
  show ?thesis
    unfolding Pair process_record_def
    by (auto simp: Let_def process_items_fields count_record_def dest!: find_Some_P
        intro!: map_replace_first_same split: option.splits)
qed

lemma process_records_ids_gen:
  "map st_id (fst (foldl (process_record cr sx px) acc rs)) = map st_id (fst acc)"
  by (induction rs arbitrary: acc) (simp_all add: process_record_ids)

lemma accumulate_ids: "map st_id (fst (accumulate cr sx px ss rs)) = map s_id ss"
  by (simp add: accumulate_def process_records_def process_records_ids_gen init_stat_def comp_def)

lemma length_accumulate [simp]: "length (fst (accumulate cr sx px ss rs)) = length ss"
  using arg_cong [OF accumulate_ids, of length cr sx px ss rs] by simp

lemma st_id_assign_bonus [simp]: "st_id (assign_bonus cb n i st) = st_id st"
  by (simp add: assign_bonus_def Let_def)

lemma map_st_id_assign_bonuses [simp]: "map st_id (assign_bonuses cb xs) = map st_id xs"
  by (rule nth_equalityI) (simp_all add: nth_assign_bonuses)

lemma map_res_seller_id_format:
  "map res_seller_id (map format_result xs) = map st_id xs"
  by (simp add: format_result_def comp_def)

lemma analyze_unfold:
  assumes "validate_data data = Inr (ss, ps, rs)" "validate_options opts = Inr (cr, cb)"
    "build_indexes ss ps = Inr (sx, px)"
  shows "analyzeSalesData data opts =
     Inr (map format_result (assign_bonuses cb (sort_by by_profit (fst (accumulate cr sx px ss rs)))),
          snd (accumulate cr sx px ss rs))"
  using assms by (simp add: analyzeSalesData_def Let_def)

lemma process_item_warns:
  "process_item cr px (st, w) it =
     (fst (process_item cr px (st, []) it), w @ snd (process_item cr px (st, []) it))"
  by (simp add: process_item_def Let_def split: option.splits)

lemma process_items_warns:
  "foldl (process_item cr px) (st, w) its =
     (fst (foldl (process_item cr px) (st, []) its),
      w @ snd (foldl (process_item cr px) (st, []) its))"
proof (induction its arbitrary: st w)
  case Nil
  show ?case by simp
next
  case (Cons it its)
  obtain st' w' where step: "process_item cr px (st, []) it = (st', w')"
    by (cases "process_item cr px (st, []) it")
  have "process_item cr px (st, w) it = (st', w @ w')"
    using process_item_warns [of cr px st w it] step by simp
  then show ?case
    using Cons.IH [of st' "w @ w'"] Cons.IH [of st' w'] step by simp
qed

lemma process_record_warns:
  "process_record cr sx px (stats, w) r =
     (fst (process_record cr sx px (stats, []) r),
      w @ snd (process_record cr sx px (stats, []) r))"
proof -
  have items: "\<And>st its. foldl (process_item cr px) (st, w) its =
     (fst (foldl (process_item cr px) (st, []) its),
      w @ snd (foldl (process_item cr px) (st, []) its))"
    by (rule process_items_warns)
  show ?thesis
    by (simp add: process_record_def Let_def items split: option.splits)
qed

lemma process_records_warns:
  "foldl (process_record cr sx px) (stats, w) rs =
     (fst (foldl (process_record cr sx px) (stats, []) rs),
      w @ snd (foldl (process_record cr sx px) (stats, []) rs))"
proof (induction rs arbitrary: stats w)
  case Nil
  show ?case by simp
next
  case (Cons r rs)
  obtain stats' w' where step: "process_record cr sx px (stats, []) r = (stats', w')"
    by (cases "process_record cr sx px (stats, []) r")
  have "process_record cr sx px (stats, w) r = (stats', w @ w')"
    using process_record_warns [of cr sx px stats w r] step by simp
  then show ?case
    using Cons.IH [of stats' "w @ w'"] Cons.IH [of stats' w'] step by simp
qed



lemma index_sellers_Some:
  "index_sellers ss m0 = Inr m \<Longrightarrow> m k = Some s \<Longrightarrow>
     (s \<in> set ss \<and> to_text (s_id s) = k) \<or> m0 k = Some s"
proof (induction ss arbitrary: m0)
  case Nil
  then show ?case by simp
next
  case (Cons a ss)
  from Cons.prems(1) have "index_sellers ss (m0(to_text (s_id a) \<mapsto> a)) = Inr m"
    by (simp split: if_splits)
  from Cons.IH [OF this Cons.prems(2)] show ?case
    by (auto split: if_splits)
qed

lemma index_sellers_None:
  "index_sellers ss m0 = Inr m \<Longrightarrow>
     m k = None \<longleftrightarrow> m0 k = None \<and> k \<notin> (\<lambda>s. to_text (s_id s)) ` set ss"
proof (induction ss arbitrary: m0)
  case Nil
  then show ?case by simp
next
  case (Cons a ss)
  from Cons.prems(1) have "index_sellers ss (m0(to_text (s_id a) \<mapsto> a)) = Inr m"
    by (simp split: if_splits)
  from Cons.IH [OF this] show ?case
    by (auto split: if_splits)
qed

lemma index_products_Some:
  "index_products ps m0 = Inr m \<Longrightarrow> m k = Some p \<Longrightarrow>
     (p \<in> set ps \<and> to_text (p_sku p) = k) \<or> m0 k = Some p"
proof (induction ps arbitrary: m0)
  case Nil
  then show ?case by simp
next
  case (Cons a ps)
  from Cons.prems(1) have "index_products ps (m0(to_text (p_sku a) \<mapsto> a)) = Inr m"
    by (simp split: if_splits)
  from Cons.IH [OF this Cons.prems(2)] show ?case
    by (auto split: if_splits)
qed

lemma index_products_None:
  "index_products ps m0 = Inr m \<Longrightarrow>
     m k = None \<longleftrightarrow> m0 k = None \<and> k \<notin> (\<lambda>p. to_text (p_sku p)) ` set ps"
proof (induction ps arbitrary: m0)
  case Nil
  then show ?case by simp
next
  case (Cons a ps)
  from Cons.prems(1) have "index_products ps (m0(to_text (p_sku a) \<mapsto> a)) = Inr m"
    by (simp split: if_splits)
  from Cons.IH [OF this] show ?case
    by (auto split: if_splits)
qed

lemma build_indexes_lookup:
  assumes "build_indexes ss ps = Inr (sx, px)"
  shows "sx k = Some s \<Longrightarrow> s \<in> set ss \<and> to_text (s_id s) = k"
    and "sx k = None \<longleftrightarrow> k \<notin> (\<lambda>s. to_text (s_id s)) ` set ss"
    and "px k = Some p \<Longrightarrow> p \<in> set ps \<and> to_text (p_sku p) = k"
    and "px k = None \<longleftrightarrow> k \<notin> (\<lambda>p. to_text (p_sku p)) ` set ps"
proof -
  from assms obtain "index_sellers ss Map.empty = Inr sx" "index_products ps Map.empty = Inr px"
    by (auto simp: build_indexes_def split: sum.splits)
  then show "sx k = Some s \<Longrightarrow> s \<in> set ss \<and> to_text (s_id s) = k"
    and "sx k = None \<longleftrightarrow> k \<notin> (\<lambda>s. to_text (s_id s)) ` set ss"
    and "px k = Some p \<Longrightarrow> p \<in> set ps \<and> to_text (p_sku p) = k"
    and "px k = None \<longleftrightarrow> k \<notin> (\<lambda>p. to_text (p_sku p)) ` set ps"
    using index_sellers_Some [of ss Map.empty sx k s] index_sellers_None [of ss Map.empty sx k]
      index_products_Some [of ps Map.empty px k p] index_products_None [of ps Map.empty px k]
    by auto
qed

lemma truthy_str_text: "truthy_str x \<Longrightarrow> x = Some (to_text x)"
  by (cases x) auto

lemma valid_seller_key:
  "\<not> hasInvalidSellers ss \<Longrightarrow> s \<in> set ss \<Longrightarrow> s_id s = Some (to_text (s_id s))"
  by (auto simp: hasInvalidSellers_def list_ex_iff invalid_seller_def intro: truthy_str_text)

lemma unknown_seller_iff:
  assumes "build_indexes ss ps = Inr (sx, px)" "\<not> hasInvalidSellers ss" "\<not> invalid_purchase r"
  shows "sx (to_text (r_seller_id r)) = None \<longleftrightarrow> r_seller_id r \<notin> s_id ` set ss"
proof -
  have r: "r_seller_id r = Some (to_text (r_seller_id r))"
    using assms(3) by (auto simp: invalid_purchase_def intro: truthy_str_text)
  show ?thesis
    unfolding build_indexes_lookup(2) [OF assms(1)]
    using r valid_seller_key [OF assms(2)]
    by (metis (no_types, lifting) image_iff)
qed


text \<open>The two outcomes of one step of the loop over the purchase records.\<close>

lemma process_record_counted:
  assumes "r_items r = Some its" "truthy_str (r_seller_id r)"
      "sx (to_text (r_seller_id r)) = Some seller"
      "find (\<lambda>s. st_id s = s_id seller) stats = Some st"
  shows "process_record cr sx px (stats, w) r =
    (replace_first (\<lambda>s. st_id s = s_id seller)
                  (fst (foldl (process_item cr px) (count_record st r, w) its)) stats,
     snd (foldl (process_item cr px) (count_record st r, w) its))"
  using assms by (simp add: process_record_def Let_def count_record_def)

lemma process_record_unmatched:
  "\<not> matched sx r \<Longrightarrow> fst (process_record cr sx px (stats, w) r) = stats"
  by (auto simp: matched_def process_record_def split: option.splits)

lemma process_record_not_found:
  "sx (to_text (r_seller_id r)) = Some seller \<Longrightarrow>
   find (\<lambda>s. st_id s = s_id seller) stats = None \<Longrightarrow>
   fst (process_record cr sx px (stats, w) r) = stats"
  by (auto simp: process_record_def split: option.splits)

lemma process_record_cases:
  obtains (skipped) "fst (process_record cr sx px (stats, w) r) = stats"
  | (counted) seller st its where "r_items r = Some its" "truthy_str (r_seller_id r)"
      "sx (to_text (r_seller_id r)) = Some seller"
      "find (\<lambda>s. st_id s = s_id seller) stats = Some st"
      "process_record cr sx px (stats, w) r =
        (replace_first (\<lambda>s. st_id s = s_id seller)
                  (fst (foldl (process_item cr px) (count_record st r, w) its)) stats,
         snd (foldl (process_item cr px) (count_record st r, w) its))"
proof (cases "matched sx r")
  case False
  then show ?thesis using skipped process_record_unmatched by blast
next
  case True
  then obtain its seller where r: "r_items r = Some its" "truthy_str (r_seller_id r)"
      "sx (to_text (r_seller_id r)) = Some seller"
    by (auto simp: matched_def)
  show ?thesis
  proof (cases "find (\<lambda>s. st_id s = s_id seller) stats")
    case None
    then show ?thesis using skipped process_record_not_found r(3) by blast
  next
    case (Some st)
    have "process_record cr sx px (stats, w) r =
        (replace_first (\<lambda>s. st_id s = s_id seller)
                  (fst (foldl (process_item cr px) (count_record st r, w) its)) stats,
         snd (foldl (process_item cr px) (count_record st r, w) its))"
      using r Some by (simp add: process_record_counted)
    then show ?thesis using counted r Some by blast
  qed
qed

lemma find_None_iff': "find P xs = None \<longleftrightarrow> (\<forall>x \<in> set xs. \<not> P x)"
  by (induction xs) auto


lemma replace_first_keeps:
  "find P xs = Some x \<Longrightarrow> z \<in> set xs \<Longrightarrow> z \<in> set (replace_first P y xs) \<or> z = x"
  by (induction xs) (auto split: if_splits)

lemma replace_first_mem:
  "find P xs = Some x \<Longrightarrow> y \<in> set (replace_first P y xs)"
  by (induction xs) (auto split: if_splits)

lemma sum_replace_first:
  fixes f :: "'a \<Rightarrow> nat"
  shows "find P xs = Some x \<Longrightarrow>
     sum_list (map f (replace_first P y xs)) + f x = sum_list (map f xs) + f y"
  by (induction xs) (auto split: if_splits)

text \<open>The accumulators and the index agree: invariant of the loop.\<close>

lemma find_stat_of_indexed:
  assumes "build_indexes ss ps = Inr (sx, px)" "map st_id stats = map s_id ss"
    "sx k = Some seller"
  shows "\<exists>st. find (\<lambda>s. st_id s = s_id seller) stats = Some st"
proof -
  have "seller \<in> set ss" using build_indexes_lookup(1) [OF assms(1,3)] by simp
  then have "s_id seller \<in> set (map st_id stats)" unfolding assms(2) by simp
  then obtain st where "st \<in> set stats" "st_id st = s_id seller" by auto
  then have "find (\<lambda>s. st_id s = s_id seller) stats \<noteq> None"
    by (auto simp: find_None_iff')
  then show ?thesis by auto
qed

lemma process_record_count:
  assumes ix: "build_indexes ss ps = Inr (sx, px)" and ids: "map st_id stats = map s_id ss"
  shows "sum_list (map st_sales_count (fst (process_record cr sx px (stats, w) r))) =
         sum_list (map st_sales_count stats) + (if matched sx r then 1 else 0)"
proof (cases "matched sx r")
  case False
  then have "fst (process_record cr sx px (stats, w) r) = stats"
    by (auto simp: matched_def process_record_def split: option.splits)
  with False show ?thesis by simp
next
  case True
  then obtain its seller where r: "r_items r = Some its" "truthy_str (r_seller_id r)"
      "sx (to_text (r_seller_id r)) = Some seller"
    by (auto simp: matched_def)
  obtain st where st: "find (\<lambda>s. st_id s = s_id seller) stats = Some st"
    using find_stat_of_indexed [OF ix ids r(3)] by blast
  show ?thesis
    using True sum_replace_first [OF st, of st_sales_count
        "fst (foldl (process_item cr px) (count_record st r, w) its)"]
    by (simp add: process_record_counted [where sx = sx and seller = seller, OF r st]
        process_items_fields count_record_def)
qed

lemma process_records_count:
  assumes ix: "build_indexes ss ps = Inr (sx, px)"
  shows "map st_id (fst acc) = map s_id ss \<Longrightarrow>
     sum_list (map st_sales_count (fst (foldl (process_record cr sx px) acc rs))) =
         sum_list (map st_sales_count (fst acc)) + length (filter (matched sx) rs)"
proof (induction rs arbitrary: acc)
  case Nil
  show ?case by simp
next
  case (Cons r rs)
  obtain stats w where acc: "acc = (stats, w)" by (cases acc)
  have ids': "map st_id (fst (process_record cr sx px acc r)) = map s_id ss"
    using Cons.prems by (simp add: process_record_ids)
  show ?case
    using Cons.IH [OF ids'] process_record_count [OF ix, of stats cr w r] Cons.prems
    by (simp add: acc)
qed

lemma sum_list_mset_eq:
  fixes f :: "'a \<Rightarrow> nat"
  shows "mset xs = mset ys \<Longrightarrow> sum_list (map f xs) = sum_list (map f ys)"
  by (metis mset_map sum_mset_sum_list)

lemma sales_count_pipeline:
  "sum_list (map res_sales_count (map format_result (assign_bonuses cb (sort_by by_profit xs)))) =
   sum_list (map st_sales_count xs)"
proof -
  have "map res_sales_count (map format_result (assign_bonuses cb ys)) = map st_sales_count ys" for ys
    by (rule nth_equalityI)
       (simp_all add: nth_assign_bonuses format_result_def assign_bonus_def Let_def)
  then show ?thesis
    using sum_list_mset_eq [of "sort_by by_profit xs" xs st_sales_count] by simp
qed

lemma matched_valid_iff:
  assumes "build_indexes ss ps = Inr (sx, px)" "\<not> hasInvalidSellers ss" "\<not> invalid_purchase r"
  shows "matched sx r \<longleftrightarrow> r_seller_id r \<in> s_id ` set ss"
  using unknown_seller_iff [OF assms] assms(3)
  by (auto simp: matched_def invalid_purchase_def split: option.splits)

lemma output_ids:
  "map res_seller_id (map format_result (assign_bonuses cb xs)) = map st_id xs"
  using map_res_seller_id_format [of "assign_bonuses cb xs"] by simp







subsection \<open>The purchase record's total amount\<close>

lemma invalid_purchase_total_amount [simp]:
  "invalid_purchase (r\<lparr> r_total_amount := t \<rparr>) = invalid_purchase r"
  by (simp add: invalid_purchase_def)

lemma hasInvalidPurchases_total_amount:
  "hasInvalidPurchases (map (\<lambda>r. r\<lparr> r_total_amount := t r \<rparr>) rs) = hasInvalidPurchases rs"
  by (simp add: hasInvalidPurchases_def list_ex_iff)

lemma hasInvalidItems_total_amount:
  "hasInvalidItems (map (\<lambda>r. r\<lparr> r_total_amount := t r \<rparr>) rs) = hasInvalidItems rs"
  by (induction rs) (simp_all split: option.splits)

lemma validate_data_total_amount:
  assumes "validate_data (Some d) = Inr (ss, ps, rs)"
  shows "validate_data (Some (d\<lparr> purchase_records :=
             Some (map (\<lambda>r. r\<lparr> r_total_amount := t r \<rparr>) rs) \<rparr>)) =
         Inr (ss, ps, map (\<lambda>r. r\<lparr> r_total_amount := t r \<rparr>) rs)"
proof -
  note v = validate_data_InrD [OF assms]
  from v(1) have d: "sellers d = Some ss" "products d = Some ps" by auto
  show ?thesis
    by (rule validate_data_InrI)
       (use d v(2-8) in \<open>simp_all add: hasInvalidPurchases_total_amount hasInvalidItems_total_amount\<close>)
qed

subsection \<open>Warnings of valid records\<close>

lemma process_item_no_skipped_record:
  "\<forall>x \<in> set (snd (process_item cr px (st, []) it)). \<not> is_skipped_record x"
  by (simp add: process_item_def Let_def split: option.splits)

lemma process_items_no_skipped_record:
  "\<forall>x \<in> set (snd (foldl (process_item cr px) (st, []) its)). \<not> is_skipped_record x"
proof (induction its arbitrary: st)
  case Nil
  show ?case by simp
next
  case (Cons it its)
  obtain st' w' where step: "process_item cr px (st, []) it = (st', w')"
    by (cases "process_item cr px (st, []) it")
  have w': "\<forall>x \<in> set w'. \<not> is_skipped_record x"
    using process_item_no_skipped_record [of cr px st it] step by simp
  show ?case
    using Cons.IH [of st'] w' process_items_warns [of cr px st' w' its] step by auto
qed

lemma process_record_no_skipped_record:
  assumes "\<not> invalid_purchase r"
  shows "\<forall>x \<in> set (snd (process_record cr sx px (stats, []) r)). \<not> is_skipped_record x"
  using assms process_items_no_skipped_record [of cr px]
  by (auto simp: process_record_def invalid_purchase_def Let_def split: option.splits)

lemma process_records_no_skipped_record:
  assumes "\<not> hasInvalidPurchases rs"
  shows "\<forall>x \<in> set (snd (foldl (process_record cr sx px) (stats, []) rs)). \<not> is_skipped_record x"
  using assms
proof (induction rs arbitrary: stats)
  case Nil
  show ?case by simp
next
  case (Cons r rs)
  obtain stats' w' where step: "process_record cr sx px (stats, []) r = (stats', w')"
    by (cases "process_record cr sx px (stats, []) r")
  have r: "\<not> invalid_purchase r" and rs: "\<not> hasInvalidPurchases rs"
    using Cons.prems by (auto simp: hasInvalidPurchases_def)
  have w': "\<forall>x \<in> set w'. \<not> is_skipped_record x"
    using process_record_no_skipped_record [OF r, of cr sx px stats] step by simp
  show ?case
    using Cons.IH [OF rs, of stats'] w' process_records_warns [of cr sx px stats' w' rs] step
    by auto
qed

subsection \<open>A revenue that is lost stays lost\<close>

lemma lost_revenue_count_record:
  "lost_revenue k st \<Longrightarrow>
   lost_revenue k (fst (foldl (process_item cr px) (count_record st r, w) its))"
  by (simp add: lost_revenue_def process_items_fields count_record_def)

lemma process_record_keeps_lost_revenue:
  assumes "\<exists>st \<in> set stats. lost_revenue k st"
  shows "\<exists>st \<in> set (fst (process_record cr sx px (stats, w) r)). lost_revenue k st"
proof (rule process_record_cases [of cr sx px stats w r])
  assume "fst (process_record cr sx px (stats, w) r) = stats"
  with assms show ?thesis by simp
next
  fix seller st its
  assume f: "find (\<lambda>s. st_id s = s_id seller) stats = Some st"
    and step: "process_record cr sx px (stats, w) r =
        (replace_first (\<lambda>s. st_id s = s_id seller)
                  (fst (foldl (process_item cr px) (count_record st r, w) its)) stats,
         snd (foldl (process_item cr px) (count_record st r, w) its))"
  let ?y = "fst (foldl (process_item cr px) (count_record st r, w) its)"
  from assms obtain z where z: "z \<in> set stats" "lost_revenue k z" by blast
  from replace_first_keeps [OF f z(1), of ?y]
  show ?thesis
  proof
    assume "z \<in> set (replace_first (\<lambda>s. st_id s = s_id seller) ?y stats)"
    with z(2) step show ?thesis by auto
  next
    assume "z = st"
    with z(2) have "lost_revenue k ?y" by (simp add: lost_revenue_count_record)
    with replace_first_mem [OF f, of ?y] step show ?thesis by auto
  qed
qed

lemma process_records_keep_lost_revenue:
  "\<exists>st \<in> set (fst acc). lost_revenue k st \<Longrightarrow>
   \<exists>st \<in> set (fst (foldl (process_record cr sx px) acc rs)). lost_revenue k st"
proof (induction rs arbitrary: acc)
  case Nil
  then show ?case by simp
next
  case (Cons r rs)
  obtain stats w where acc: "acc = (stats, w)" by (cases acc)
  show ?case
    using Cons.IH [of "process_record cr sx px acc r"]
      process_record_keeps_lost_revenue [of stats k cr sx px w r] Cons.prems
    by (simp add: acc)
qed

lemma indexed_seller_id:
  assumes "build_indexes ss ps = Inr (sx, px)" "\<not> hasInvalidSellers ss"
    "truthy_str (r_seller_id r)" "sx (to_text (r_seller_id r)) = Some seller"
  shows "s_id seller = r_seller_id r"
proof -
  have "seller \<in> set ss" "to_text (s_id seller) = to_text (r_seller_id r)"
    using build_indexes_lookup(1) [OF assms(1,4)] by simp_all
  then show ?thesis
    using valid_seller_key [OF assms(2)] truthy_str_text [OF assms(3)] by metis
qed

lemma process_record_loses_revenue:
  assumes ix: "build_indexes ss ps = Inr (sx, px)" and ss: "\<not> hasInvalidSellers ss"
    and ids: "map st_id stats = map s_id ss"
    and r: "matched sx r" "r_total_amount r = None"
  shows "\<exists>st \<in> set (fst (process_record cr sx px (stats, w) r)). lost_revenue (r_seller_id r) st"
proof -
  from r(1) obtain its seller where m: "r_items r = Some its" "truthy_str (r_seller_id r)"
      "sx (to_text (r_seller_id r)) = Some seller"
    by (auto simp: matched_def)
  obtain st where st: "find (\<lambda>s. st_id s = s_id seller) stats = Some st"
    using find_stat_of_indexed [OF ix ids m(3)] by blast
  let ?y = "fst (foldl (process_item cr px) (count_record st r, w) its)"
  have "st_id st = s_id seller" using find_Some_P [OF st] by simp
  then have "st_id st = r_seller_id r" using indexed_seller_id [OF ix ss m(2,3)] by simp
  then have "lost_revenue (r_seller_id r) ?y"
    using r(2) by (simp add: lost_revenue_def process_items_fields count_record_def)
  moreover have "?y \<in> set (fst (process_record cr sx px (stats, w) r))"
    using replace_first_mem [OF st, of ?y]
    by (simp add: process_record_counted [where sx = sx and seller = seller, OF m st])
  ultimately show ?thesis by blast
qed

lemma pipeline_member:
  assumes "x \<in> set xs"
  shows "\<exists>res \<in> set (map format_result (assign_bonuses cb (sort_by by_profit xs))).
           res_seller_id res = st_id x \<and> res_revenue res = round2 (st_revenue x) \<and>
           res_profit res = round2 (st_profit x) \<and> res_sales_count res = st_sales_count x"
proof -
  let ?ranked = "sort_by by_profit xs"
  from assms have "x \<in> set ?ranked" by simp
  then obtain i where i: "i < length ?ranked" "?ranked ! i = x"
    unfolding in_set_conv_nth by blast
  let ?res = "format_result (assign_bonuses cb ?ranked ! i)"
  have "?res \<in> set (map format_result (assign_bonuses cb ?ranked))"
    using i(1) by simp
  moreover have "res_seller_id ?res = st_id x \<and> res_revenue ?res = round2 (st_revenue x) \<and>
           res_profit ?res = round2 (st_profit x) \<and> res_sales_count ?res = st_sales_count x"
    using i by (simp add: nth_assign_bonuses format_result_def assign_bonus_def Let_def)
  ultimately show ?thesis by blast
qed

subsection \<open>Invariants of the accumulators\<close>





subsection \<open>The sort by profit\<close>






lemma set_insert_by [simp]: "set (insert_by cmp x ys) = insert x (set ys)"
  by (induction ys) auto







subsection \<open>Evaluated examples\<close>

lemma validate_default_options:
  "validate_options (Some default_options) = Inr (calculateSimpleRevenue, calculateBonusByProfit)"
  by (simp add: default_options_def validate_options_def)

lemma validate_data_2:
  "validate_data (Some data_2) =
     Inr ([seller_a, seller_b], [product_x], [record_a, record_c, record_b])"
  by (simp add: seller_a_def seller_b_def product_x_def item_x_def record_a_def
      item_x5_def record_b_def record_c_def data_of_def data_2_def run_defs)


lemma validate_data_no_total:
  "validate_data (Some data_no_total) =
     Inr ([seller_a, seller_b], [product_x], [record_a_no_total, record_a])"
  by (simp add: seller_a_def seller_b_def product_x_def item_x_def record_a_def
      record_a_no_total_def data_of_def data_no_total_def run_defs)

section \<open>The claims\<close>

subsection \<open>C1: no exception after the validation\<close>



subsection \<open>C2: the default bonus strategy\<close>




subsection \<open>C3: the ranking\<close>




subsection \<open>C4: malformed items\<close>




subsection \<open>C5: sellers without matched items\<close>




subsection \<open>C6: what the validation accepts\<close>

text \<open>
  C6 (as the code has it). The data pass the validation when the three collections are
  non-empty arrays, every seller has a non-empty id, first name and last name, every
  product a non-empty sku and prices that are numbers other than zero (negative ones
  included), every purchase record a non-empty seller id and a non-empty array of items,
  and every item a non-empty sku and a quantity and a sale price other than zero.
\<close>

theorem validate_data_accepts_truthy:
  assumes "sellers d = Some ss" "products d = Some ps" "purchase_records d = Some rs"
    and "ss \<noteq> []" "ps \<noteq> []" "rs \<noteq> []"
    and "\<forall>s \<in> set ss. \<exists>a b c. s_id s = Some a \<and> a \<noteq> [] \<and> s_first_name s = Some b \<and> b \<noteq> []
           \<and> s_last_name s = Some c \<and> c \<noteq> []"
    and "\<forall>p \<in> set ps. \<exists>k a b. p_sku p = Some k \<and> k \<noteq> [] \<and>
           p_purchase_price p = Some (Fin a) \<and> a \<noteq> 0 \<and> p_sale_price p = Some (Fin b) \<and> b \<noteq> 0"
    and "\<forall>r \<in> set rs. \<exists>k its. r_seller_id r = Some k \<and> k \<noteq> [] \<and> r_items r = Some its \<and>
           its \<noteq> [] \<and>
           (\<forall>it \<in> set its. \<exists>k a b. i_sku it = Some k \<and> k \<noteq> [] \<and>
              i_quantity it = Some (Fin a) \<and> a \<noteq> 0 \<and> i_sale_price it = Some (Fin b) \<and> b \<noteq> 0)"
  shows "validate_data (Some d) = Inr (ss, ps, rs) \<and>
         (validate_options opts = Inr (cr, cb) \<longrightarrow>
            (\<exists>out warns. analyzeSalesData (Some d) opts = Inr (out, warns)))"
proof -
  have sellers_ok: "\<not> hasInvalidSellers ss"
    using assms(7) by (fastforce simp: hasInvalidSellers_def list_ex_iff invalid_seller_def)
  have products_ok: "\<not> hasInvalidProducts ps"
    using assms(8) by (fastforce simp: hasInvalidProducts_def list_ex_iff invalid_product_def)
  have purchases_ok: "\<not> hasInvalidPurchases rs"
    using assms(9) by (fastforce simp: hasInvalidPurchases_def list_ex_iff invalid_purchase_def)
  have items_ok: "hasInvalidItems rs = Inr False"
    unfolding hasInvalidItems_False_iff
  proof
    fix r assume "r \<in> set rs"
    with assms(9) obtain its where its: "r_items r = Some its"
      and ok: "\<forall>it \<in> set its. \<exists>k a b. i_sku it = Some k \<and> k \<noteq> [] \<and>
              i_quantity it = Some (Fin a) \<and> a \<noteq> 0 \<and> i_sale_price it = Some (Fin b) \<and> b \<noteq> 0"
      by blast
    from ok have "\<forall>it \<in> set its. \<not> invalid_item it"
      by (fastforce simp: invalid_item_def)
    with its show "\<exists>its. r_items r = Some its \<and> (\<forall>it \<in> set its. \<not> invalid_item it)" by blast
  qed
  have passes: "validate_data (Some d) = Inr (ss, ps, rs)"
    by (rule validate_data_InrI [OF assms(1-6) sellers_ok products_ok purchases_ok items_ok])
  obtain sx px where ix: "build_indexes ss ps = Inr (sx, px)"
    using build_indexes_total [OF sellers_ok products_ok] by blast
  have "\<exists>out warns. analyzeSalesData (Some d) opts = Inr (out, warns)"
    if "validate_options opts = Inr (cr, cb)"
    using analyze_unfold [OF passes that ix] by blast
  with passes show ?thesis by blast
qed

theorem validate_data_accepts_truthy_witness:
  "p_purchase_price product_neg = Some (Fin (- 50)) \<and>
   i_quantity item_neg = Some (Fin (- 2)) \<and>
   validate_data (Some data_neg) = Inr ([seller_a], [product_neg], [record_a_neg]) \<and>
   (\<exists>out warns. analyzeSalesData (Some data_neg) (Some default_options) = Inr (out, warns))"
  using validate_data_accepts_truthy
    [of data_neg "[seller_a]" "[product_neg]" "[record_a_neg]" "Some default_options"
        calculateSimpleRevenue calculateBonusByProfit]
    validate_default_options
  by (simp add: seller_a_def default_options_def product_neg_def item_neg_def
      record_a_neg_def data_of_def data_neg_def)

text \<open>
  C6 as stated fails at zero: a product whose purchase price is the number 0 is
  rejected, where the same data with the price 50 pass.
\<close>

theorem zero_price_rejected:
  "p_sku product_free = Some ''x'' \<and>
   p_purchase_price product_free = Some (Fin 0) \<and>
   p_sale_price product_free = Some (Fin 100) \<and>
   validate_data (Some (data_of [seller_a] [product_free] [record_a])) = Inl InvalidDataStructure \<and>
   analyzeSalesData (Some (data_of [seller_a] [product_free] [record_a])) (Some default_options)
     = Inl InvalidDataStructure \<and>
   validate_data (Some (data_of [seller_a] [product_x] [record_a]))
     = Inr ([seller_a], [product_x], [record_a])"
  by (simp add: seller_a_def product_x_def item_x_def record_a_def default_options_def
      product_free_def data_of_def run_defs)

subsection \<open>C7: records of unknown sellers\<close>



subsection \<open>C8: the sales counts\<close>

text \<open>
  C8. For data that pass the validation, the sales counts of the output records add up to
  the number of purchase records whose seller id is a key of the seller index; these are
  the records whose seller id is the id of a seller.
\<close>

theorem sales_count_total:
  assumes "validate_data data = Inr (ss, ps, rs)" and "validate_options opts = Inr (cr, cb)"
  shows "\<exists>sx px out warns. build_indexes ss ps = Inr (sx, px) \<and>
           analyzeSalesData data opts = Inr (out, warns) \<and>
           sum_list (map res_sales_count out) =
             length (filter (\<lambda>r. sx (to_text (r_seller_id r)) \<noteq> None) rs) \<and>
           sum_list (map res_sales_count out) =
             length (filter (\<lambda>r. r_seller_id r \<in> s_id ` set ss) rs)"
proof -
  note v = validate_data_InrD [OF assms(1)]
  obtain sx px where ix: "build_indexes ss ps = Inr (sx, px)"
    using build_indexes_total v(5,6) by blast
  have valid: "\<not> invalid_purchase r" if "r \<in> set rs" for r
    using v(7) that by (auto simp: hasInvalidPurchases_def list_ex_iff)
  have by_id: "filter (matched sx) rs = filter (\<lambda>r. r_seller_id r \<in> s_id ` set ss) rs"
    using valid matched_valid_iff [OF ix v(5)] by (intro filter_cong) auto
  have by_index: "filter (matched sx) rs = filter (\<lambda>r. sx (to_text (r_seller_id r)) \<noteq> None) rs"
  proof (intro filter_cong refl)
    fix r assume "r \<in> set rs"
    from valid [OF this]
    show "matched sx r = (sx (to_text (r_seller_id r)) \<noteq> None)"
      by (auto simp: matched_def invalid_purchase_def split: option.splits)
  qed
  have count: "sum_list (map st_sales_count (fst (accumulate cr sx px ss rs))) =
      length (filter (matched sx) rs)"
    using process_records_count [OF ix, of "(map init_stat ss, [])" cr rs]
    by (simp add: accumulate_def process_records_def init_stat_def comp_def)
  let ?out = "map format_result (assign_bonuses cb (sort_by by_profit (fst (accumulate cr sx px ss rs))))"
  have out: "analyzeSalesData data opts = Inr (?out, snd (accumulate cr sx px ss rs))"
    by (rule analyze_unfold [OF assms ix])
  have total: "sum_list (map res_sales_count ?out) = length (filter (matched sx) rs)"
    using sales_count_pipeline [of cb "fst (accumulate cr sx px ss rs)"] count by simp
  show ?thesis
    using ix out total [unfolded by_index] total [unfolded by_id] by blast
qed

theorem sales_count_total_witness:
  "validate_data (Some data_2) =
     Inr ([seller_a, seller_b], [product_x], [record_a, record_c, record_b]) \<and>
   validate_options (Some default_options) = Inr (calculateSimpleRevenue, calculateBonusByProfit) \<and>
   length (filter (\<lambda>r. r_seller_id r \<in> s_id ` set [seller_a, seller_b])
                  [record_a, record_c, record_b]) = 2 \<and>
   (\<exists>out warns. analyzeSalesData (Some data_2) (Some default_options) = Inr (out, warns) \<and>
      sum_list (map res_sales_count out) = 2)"
proof -
  have two: "length (filter (\<lambda>r. r_seller_id r \<in> s_id ` set [seller_a, seller_b])
                  [record_a, record_c, record_b]) = 2"
    by (simp add: seller_a_def seller_b_def product_x_def item_x_def record_a_def
      default_options_def item_x5_def record_b_def record_c_def data_of_def
      data_2_def)
  from sales_count_total [OF validate_data_2 validate_default_options]
  have "\<exists>out warns. analyzeSalesData (Some data_2) (Some default_options) = Inr (out, warns) \<and>
      sum_list (map res_sales_count out) = 2"
    unfolding two by blast
  with validate_data_2 validate_default_options two show ?thesis by blast
qed

subsection \<open>C9: the seller ids\<close>

text \<open>
  C9 (as the code has it). There is one accumulator for each entry of the input sellers,
  in the same order and with the same id, and the ids of the output records are the ids
  of the input sellers up to their order. They are pairwise distinct exactly when the
  ids of the input sellers are.
\<close>

theorem seller_ids_correspond:
  assumes "validate_data data = Inr (ss, ps, rs)" and "validate_options opts = Inr (cr, cb)"
  shows "(\<forall>sx px. map st_id (fst (accumulate cr sx px ss rs)) = map s_id ss) \<and>
         (\<exists>out warns. analyzeSalesData data opts = Inr (out, warns) \<and>
           length out = length ss \<and>
           mset (map res_seller_id out) = mset (map s_id ss) \<and>
           (distinct (map res_seller_id out) \<longleftrightarrow> distinct (map s_id ss)))"
proof -
  note v = validate_data_InrD [OF assms(1)]
  obtain sx' px' where ix: "build_indexes ss ps = Inr (sx', px')"
    using build_indexes_total v(5,6) by blast
  let ?ranked = "sort_by by_profit (fst (accumulate cr sx' px' ss rs))"
  let ?out = "map format_result (assign_bonuses cb ?ranked)"
  have "mset (map st_id ?ranked) = mset (map st_id (fst (accumulate cr sx' px' ss rs)))"
    by simp
  then have m: "mset (map res_seller_id ?out) = mset (map s_id ss)"
    by (simp only: output_ids accumulate_ids)
  have d: "distinct (map res_seller_id ?out) \<longleftrightarrow> distinct (map s_id ss)"
    using m by (rule mset_eq_imp_distinct_iff)
  have out: "analyzeSalesData data opts = Inr (?out, snd (accumulate cr sx' px' ss rs))"
    by (rule analyze_unfold [OF assms ix])
  have len: "length ?out = length ss" by simp
  have "\<exists>out warns. analyzeSalesData data opts = Inr (out, warns) \<and>
           length out = length ss \<and>
           mset (map res_seller_id out) = mset (map s_id ss) \<and>
           (distinct (map res_seller_id out) \<longleftrightarrow> distinct (map s_id ss))"
    by (intro exI conjI) (fact out, fact len, fact m, fact d)
  then show ?thesis by (simp add: accumulate_ids)
qed

theorem seller_ids_correspond_witness:
  "validate_data (Some data_2) =
     Inr ([seller_a, seller_b], [product_x], [record_a, record_c, record_b]) \<and>
   validate_options (Some default_options) = Inr (calculateSimpleRevenue, calculateBonusByProfit) \<and>
   distinct (map s_id [seller_a, seller_b]) \<and>
   (\<exists>out warns. analyzeSalesData (Some data_2) (Some default_options) = Inr (out, warns) \<and>
      length out = 2 \<and> distinct (map res_seller_id out))"
proof -
  have d: "distinct (map s_id [seller_a, seller_b])" by (simp add: seller_a_def seller_b_def product_x_def item_x_def record_a_def
      default_options_def item_x5_def record_b_def record_c_def data_of_def
      data_2_def)
  show ?thesis
    using seller_ids_correspond [OF validate_data_2 validate_default_options] d
      validate_data_2 validate_default_options
    by (auto simp: numeral_2_eq_2)
qed

text \<open>
  C9 as stated fails for two sellers with the same id: both get an output record, with
  the same seller id (the purchase record is counted for the first of them).
\<close>

theorem duplicate_seller_ids_kept:
  "s_id seller_a = s_id seller_a2 \<and>
   analyzeSalesData (Some (data_of [seller_a, seller_a2] [product_x] [record_a]))
       (Some default_options) =
     Inr ([\<lparr> res_seller_id = Some ''a'', res_name = ''Ann Lee'', res_revenue = Fin 200,
              res_profit = Fin 100, res_sales_count = 1,
              res_top_products = Some [\<lparr> tp_sku = ''x'', tp_quantity = Fin 2 \<rparr>],
              res_bonus = Fin 15 \<rparr>,
           \<lparr> res_seller_id = Some ''a'', res_name = ''Al Poe'', res_revenue = Fin 0,
              res_profit = Fin 0, res_sales_count = 0, res_top_products = Some [],
              res_bonus = Fin 0 \<rparr>], [])"
  by (simp add: seller_a_def product_x_def item_x_def record_a_def default_options_def
      seller_a2_def data_of_def run_defs)

subsection \<open>C10: the total amount of a record\<close>

text \<open>
  C10. No phase checks \<open>total_amount\<close>: data that pass the validation still pass it when
  every \<open>total_amount\<close> is removed; a record without \<open>total_amount\<close> whose seller is found
  is counted (the sales count grows by 1) and makes the revenue \<open>NaN\<close>, the sum of a
  number and \<^verbatim>\<open>undefined\<close>; and in the result the seller's record has counted a sale and
  has the revenue \<open>NaN\<close>, and no warning says that the record was skipped.
\<close>

theorem total_amount_never_checked:
  "(validate_data (Some d) = Inr (ss, ps, rs) \<longrightarrow>
      validate_data (Some (d\<lparr> purchase_records :=
          Some (map (\<lambda>r. r\<lparr> r_total_amount := None \<rparr>) rs) \<rparr>)) =
        Inr (ss, ps, map (\<lambda>r. r\<lparr> r_total_amount := None \<rparr>) rs))
   \<and>
   (r_total_amount r = None \<and> r_items r = Some its \<and> truthy_str (r_seller_id r) \<and>
    sx (to_text (r_seller_id r)) = Some seller \<and>
    find (\<lambda>s. st_id s = s_id seller) stats = Some st \<longrightarrow>
      (\<exists>st'. fst (process_record cr sx px (stats, w) r) =
                replace_first (\<lambda>s. st_id s = s_id seller) st' stats \<and>
             st_revenue st' = NaN \<and> st_sales_count st' = st_sales_count st + 1))
   \<and>
   (validate_data data = Inr (ss, ps, rs) \<and> validate_options opts = Inr (cr, cb) \<and>
    r \<in> set rs \<and> r_total_amount r = None \<and> r_seller_id r \<in> s_id ` set ss \<longrightarrow>
      (\<exists>out warns. analyzeSalesData data opts = Inr (out, warns) \<and>
         SkippedRecord r \<notin> set warns \<and>
         (\<exists>res \<in> set out. res_seller_id res = r_seller_id r \<and> res_revenue res = NaN \<and>
            1 \<le> res_sales_count res)))"
proof (intro conjI impI)
  assume "validate_data (Some d) = Inr (ss, ps, rs)"
  then show "validate_data (Some (d\<lparr> purchase_records :=
          Some (map (\<lambda>r. r\<lparr> r_total_amount := None \<rparr>) rs) \<rparr>)) =
        Inr (ss, ps, map (\<lambda>r. r\<lparr> r_total_amount := None \<rparr>) rs)"
    by (rule validate_data_total_amount)
next
  assume a: "r_total_amount r = None \<and> r_items r = Some its \<and> truthy_str (r_seller_id r) \<and>
    sx (to_text (r_seller_id r)) = Some seller \<and>
    find (\<lambda>s. st_id s = s_id seller) stats = Some st"
  let ?y = "fst (foldl (process_item cr px) (count_record st r, w) its)"
  have "fst (process_record cr sx px (stats, w) r) =
          replace_first (\<lambda>s. st_id s = s_id seller) ?y stats"
    using a by (simp add: process_record_counted [where sx = sx and seller = seller])
  moreover have "st_revenue ?y = NaN \<and> st_sales_count ?y = st_sales_count st + 1"
    using a by (simp add: process_items_fields count_record_def)
  ultimately show "\<exists>st'. fst (process_record cr sx px (stats, w) r) =
                replace_first (\<lambda>s. st_id s = s_id seller) st' stats \<and>
             st_revenue st' = NaN \<and> st_sales_count st' = st_sales_count st + 1"
    by blast
next
  assume a: "validate_data data = Inr (ss, ps, rs) \<and> validate_options opts = Inr (cr, cb) \<and>
    r \<in> set rs \<and> r_total_amount r = None \<and> r_seller_id r \<in> s_id ` set ss"
  then have vd: "validate_data data = Inr (ss, ps, rs)" and vo: "validate_options opts = Inr (cr, cb)"
    and r: "r \<in> set rs" "r_total_amount r = None" "r_seller_id r \<in> s_id ` set ss"
    by simp_all
  note v = validate_data_InrD [OF vd]
  obtain sx' px' where ix: "build_indexes ss ps = Inr (sx', px')"
    using build_indexes_total v(5,6) by blast
  have valid_r: "\<not> invalid_purchase r"
    using v(7) r(1) by (auto simp: hasInvalidPurchases_def list_ex_iff)
  have m: "matched sx' r"
    using matched_valid_iff [OF ix v(5) valid_r] r(3) by simp
  obtain rs1 rs2 where split: "rs = rs1 @ r # rs2"
    using r(1) by (meson split_list)
  let ?step = "process_record cr sx' px'"
  obtain stats1 w1 where mid: "foldl ?step (map init_stat ss, []) rs1 = (stats1, w1)"
    by (cases "foldl ?step (map init_stat ss, []) rs1")
  have ids1: "map st_id stats1 = map s_id ss"
    using process_records_ids_gen [of cr sx' px' "(map init_stat ss, [])" rs1] mid
    by (simp add: init_stat_def comp_def)
  have "\<exists>st \<in> set (fst (?step (stats1, w1) r)). lost_revenue (r_seller_id r) st"
    by (rule process_record_loses_revenue [OF ix v(5) ids1 m r(2)])
  then have "\<exists>st \<in> set (fst (foldl ?step (?step (stats1, w1) r) rs2)). lost_revenue (r_seller_id r) st"
    by (rule process_records_keep_lost_revenue)
  then have "\<exists>st \<in> set (fst (accumulate cr sx' px' ss rs)). lost_revenue (r_seller_id r) st"
    using mid by (simp add: accumulate_def process_records_def split)
  then obtain x where x: "x \<in> set (fst (accumulate cr sx' px' ss rs))"
      "lost_revenue (r_seller_id r) x" by blast
  let ?out = "map format_result (assign_bonuses cb (sort_by by_profit (fst (accumulate cr sx' px' ss rs))))"
  have res: "\<exists>res \<in> set ?out. res_seller_id res = r_seller_id r \<and> res_revenue res = NaN \<and>
            1 \<le> res_sales_count res"
    using pipeline_member [OF x(1), of cb] x(2) by (auto simp: lost_revenue_def)
  have "\<forall>x \<in> set (snd (accumulate cr sx' px' ss rs)). \<not> is_skipped_record x"
    unfolding accumulate_def process_records_def
    by (rule process_records_no_skipped_record [OF v(7)])
  then have nolog: "SkippedRecord r \<notin> set (snd (accumulate cr sx' px' ss rs))"
    by auto
  have out: "analyzeSalesData data opts = Inr (?out, snd (accumulate cr sx' px' ss rs))"
    by (rule analyze_unfold [OF vd vo ix])
  show "\<exists>out warns. analyzeSalesData data opts = Inr (out, warns) \<and>
         SkippedRecord r \<notin> set warns \<and>
         (\<exists>res \<in> set out. res_seller_id res = r_seller_id r \<and> res_revenue res = NaN \<and>
            1 \<le> res_sales_count res)"
    by (intro exI conjI) (fact out, fact nolog, fact res)
qed

theorem total_amount_never_checked_witness:
  "validate_data (Some data_no_total) =
     Inr ([seller_a, seller_b], [product_x], [record_a_no_total, record_a]) \<and>
   r_total_amount record_a_no_total = None \<and>
   analyzeSalesData (Some data_no_total) (Some default_options) =
     Inr ([\<lparr> res_seller_id = Some ''a'', res_name = ''Ann Lee'', res_revenue = NaN,
              res_profit = Fin 200, res_sales_count = 2,
              res_top_products = Some [\<lparr> tp_sku = ''x'', tp_quantity = Fin 4 \<rparr>],
              res_bonus = Fin 30 \<rparr>,
           \<lparr> res_seller_id = Some ''b'', res_name = ''Bob Ray'', res_revenue = Fin 0,
              res_profit = Fin 0, res_sales_count = 0, res_top_products = Some [],
              res_bonus = Fin 0 \<rparr>], []) \<and>
   (\<exists>out warns. analyzeSalesData (Some data_no_total) (Some default_options) = Inr (out, warns) \<and>
      SkippedRecord record_a_no_total \<notin> set warns \<and>
      (\<exists>res \<in> set out. res_seller_id res = Some ''a'' \<and> res_revenue res = NaN \<and>
            1 \<le> res_sales_count res))"
proof -
  have e: "analyzeSalesData (Some data_no_total) (Some default_options) =
     Inr ([\<lparr> res_seller_id = Some ''a'', res_name = ''Ann Lee'', res_revenue = NaN,
              res_profit = Fin 200, res_sales_count = 2,
              res_top_products = Some [\<lparr> tp_sku = ''x'', tp_quantity = Fin 4 \<rparr>],
              res_bonus = Fin 30 \<rparr>,
           \<lparr> res_seller_id = Some ''b'', res_name = ''Bob Ray'', res_revenue = Fin 0,
              res_profit = Fin 0, res_sales_count = 0, res_top_products = Some [],
              res_bonus = Fin 0 \<rparr>], [])"
    by (simp add: seller_a_def seller_b_def product_x_def item_x_def record_a_def
      default_options_def record_a_no_total_def data_of_def
      data_no_total_def run_defs)
  have h: "record_a_no_total \<in> set [record_a_no_total, record_a]"
    "r_total_amount record_a_no_total = None"
    "r_seller_id record_a_no_total \<in> s_id ` set [seller_a, seller_b]"
    "r_seller_id record_a_no_total = Some ''a''"
    by (simp_all add: seller_a_def seller_b_def product_x_def item_x_def record_a_def
      default_options_def record_a_no_total_def data_of_def
      data_no_total_def)
  have "\<exists>out warns. analyzeSalesData (Some data_no_total) (Some default_options) = Inr (out, warns) \<and>
      SkippedRecord record_a_no_total \<notin> set warns \<and>
      (\<exists>res \<in> set out. res_seller_id res = r_seller_id record_a_no_total \<and> res_revenue res = NaN \<and>
            1 \<le> res_sales_count res)"
    using total_amount_never_checked
      [where data = "Some data_no_total" and ss = "[seller_a, seller_b]" and ps = "[product_x]"
         and rs = "[record_a_no_total, record_a]" and opts = "Some default_options"
         and cr = calculateSimpleRevenue and cb = calculateBonusByProfit
         and r = record_a_no_total]
      validate_data_no_total validate_default_options h(1-3)
    by blast
  then show ?thesis
    unfolding h(4) using validate_data_no_total h(2) e by blast
qed

end
